theory Spec2Isabelle
  imports Main
begin

section \<open>Python string primitives used by server.py\<close>

text \<open>
  Strings are lists of 8-bit characters, read as the code points below 256. On these
  the regular-expression class \<open>\d\<close> and the class \<open>[0-9]\<close> coincide.
\<close>

definition is_digit :: "char \<Rightarrow> bool" where
  "is_digit c = (c \<in> set ''0123456789'')"

definition digit_val :: "char \<Rightarrow> nat" where
  "digit_val c = of_char c - 48"

definition digit_char :: "nat \<Rightarrow> char" where
  "digit_char d = ''0123456789'' ! d"

text \<open>The value of a run of decimal digits, most significant digit first.\<close>

definition nat_of_digits :: "string \<Rightarrow> nat" where
  "nat_of_digits ds = foldl (\<lambda>a c. 10 * a + digit_val c) 0 ds"

text \<open>\<open>str(n)\<close> for a non-negative integer: decimal, no leading zero.\<close>

fun digits_of :: "nat \<Rightarrow> string" where
  "digits_of n =
     (if n < 10 then [digit_char n] else digits_of (n div 10) @ [digit_char (n mod 10)])"

declare digits_of.simps [simp del]

text \<open>\<open>str(i)\<close> for a Python integer.\<close>

definition py_str :: "int \<Rightarrow> string" where
  "py_str i = (if i < 0 then CHR ''-'' # digits_of (nat (- i)) else digits_of (nat i))"

text \<open>
  \<open>s.zfill(width)\<close>: pads with zeros on the left up to \<open>width\<close> characters; a leading
  sign stays in front of the padding.
\<close>

definition zfill :: "string \<Rightarrow> int \<Rightarrow> string" where
  "zfill s width =
     (if width \<le> int (length s) then s
      else (let fill = replicate (nat (width - int (length s))) (CHR ''0'')
            in case s of
                 [] \<Rightarrow> fill
               | c # cs \<Rightarrow> if c = CHR ''+'' \<or> c = CHR ''-'' then c # fill @ cs
                           else fill @ s))"

text \<open>
  White space as \<open>str.strip()\<close> and \<open>int()\<close> see it, among the code points below 256:
  tab, line feed, vertical tab, form feed, carriage return, the four separators
  0x1C to 0x1F, space, 0x85 and 0xA0.
\<close>

definition py_space :: "char \<Rightarrow> bool" where
  "py_space c = ((of_char c :: nat) \<in> {9, 10, 11, 12, 13, 28, 29, 30, 31, 32, 133, 160})"

definition py_strip :: "string \<Rightarrow> string" where
  "py_strip s = rev (dropWhile py_space (rev (dropWhile py_space s)))"

text \<open>
  \<open>str.lower()\<close> on code points below 256: the ASCII capitals and the Latin-1 capitals
  0xC0 to 0xDE (0xD7, the multiplication sign, apart) move up by 32.
\<close>

definition lower_char :: "char \<Rightarrow> char" where
  "lower_char c =
     (let n = (of_char c :: nat)
      in if (65 \<le> n \<and> n \<le> 90) \<or> (192 \<le> n \<and> n \<le> 222 \<and> n \<noteq> 215)
         then char_of (n + 32) else c)"

definition py_lower :: "string \<Rightarrow> string" where
  "py_lower s = map lower_char s"

text \<open>\<open>s.split(sep)\<close> for a one-character separator: never empty.\<close>

fun py_split :: "char \<Rightarrow> string \<Rightarrow> string list" where
  "py_split sep [] = [[]]"
| "py_split sep (c # cs) =
     (if c = sep then [] # py_split sep cs
      else (case py_split sep cs of
              [] \<Rightarrow> [[c]]
            | w # ws \<Rightarrow> (c # w) # ws))"

text \<open>\<open>sub in s\<close> for strings.\<close>

definition starts_with :: "string \<Rightarrow> string \<Rightarrow> bool" where
  "starts_with sub s = (take (length sub) s = sub)"

fun contains :: "string \<Rightarrow> string \<Rightarrow> bool" where
  "contains sub [] = (sub = [])"
| "contains sub (c # cs) = (starts_with sub (c # cs) \<or> contains sub cs)"

text \<open>\<open>s.replace(a, b)\<close> for one-character strings \<open>a\<close> and \<open>b\<close>.\<close>

definition replace_char :: "char \<Rightarrow> char \<Rightarrow> string \<Rightarrow> string" where
  "replace_char a b s = map (\<lambda>c. if c = a then b else c) s"

text \<open>
  \<open>int(s)\<close> for a string: white space around is dropped, one sign is allowed, and the
  digits may be grouped by single underscores. \<open>None\<close> stands for the \<open>ValueError\<close>.
  The interpreter's configurable limit on the number of digits is not modelled.
\<close>

fun digit_groups :: "string \<Rightarrow> bool" where
  "digit_groups [] = False"
| "digit_groups [c] = is_digit c"
| "digit_groups (c # d # cs) =
     (is_digit c \<and> (if d = CHR ''_'' then digit_groups cs else digit_groups (d # cs)))"

definition unsigned_int :: "string \<Rightarrow> int option" where
  "unsigned_int s =
     (if digit_groups s then Some (int (nat_of_digits (filter is_digit s))) else None)"

definition py_int :: "string \<Rightarrow> int option" where
  "py_int s =
     (case py_strip s of
        [] \<Rightarrow> None
      | c # cs \<Rightarrow>
          if c = CHR ''-'' then map_option uminus (unsigned_int cs)
          else if c = CHR ''+'' then unsigned_int cs
          else unsigned_int (c # cs))"

section \<open>The pattern extractor: route /parse\<close>

text \<open>
  The search \<open>re.search(r"^(.*?)(\d+)([^0-9]*)$", url)\<close> as the backtracking matcher
  runs it. No flag is given, so \<open>.\<close> matches every character but the line feed, \<open>^\<close>
  matches at the start of the string only, and \<open>$\<close> matches at the end of the string
  or in front of a line feed that ends it.
\<close>

definition newline :: char where
  "newline = CHR 0x0A"

definition at_end :: "string \<Rightarrow> bool" where
  "at_end r = (r = [] \<or> r = [newline])"

text \<open>
  A greedy repetition in front of a continuation \<open>k\<close>: the largest count \<open>n\<close> is tried
  first, then the smaller ones down to \<open>lo\<close>.
\<close>

fun greedy :: "nat \<Rightarrow> nat \<Rightarrow> (nat \<Rightarrow> 'a option) \<Rightarrow> 'a option" where
  "greedy lo 0 k = (if lo = 0 then k 0 else None)"
| "greedy lo (Suc n) k =
     (if Suc n < lo then None
      else (case k (Suc n) of Some r \<Rightarrow> Some r | None \<Rightarrow> greedy lo n k))"

text \<open>\<open>([^0-9]*)$\<close>\<close>

definition match_suffix :: "string \<Rightarrow> string option" where
  "match_suffix r =
     greedy 0 (length (takeWhile (\<lambda>c. \<not> is_digit c) r))
       (\<lambda>n. if at_end (drop n r) then Some (take n r) else None)"

text \<open>\<open>(\d+)([^0-9]*)$\<close>\<close>

definition match_digits :: "string \<Rightarrow> (string \<times> string) option" where
  "match_digits s =
     greedy 1 (length (takeWhile is_digit s))
       (\<lambda>n. map_option (Pair (take n s)) (match_suffix (drop n s)))"

text \<open>
  \<open>^(.*?)\<close> in front: the lazy group takes no character at first and one more on each
  failure, as long as the character is not a line feed. \<open>pre\<close> is what it holds.
\<close>

fun match_pattern :: "string \<Rightarrow> string \<Rightarrow> (string \<times> string \<times> string) option" where
  "match_pattern pre s =
     (case match_digits s of
        Some (ds, suf) \<Rightarrow> Some (pre, ds, suf)
      | None \<Rightarrow>
          (case s of
             [] \<Rightarrow> None
           | c # cs \<Rightarrow> if c = newline then None else match_pattern (pre @ [c]) cs))"

declare match_pattern.simps [simp del]

definition re_search :: "string \<Rightarrow> (string \<times> string \<times> string) option" where
  "re_search url = match_pattern [] url"

datatype parse_error = NoUrl | NoNumericSequence | ValueError

text \<open>The JSON object of the answer; \<open>pat_\<close> is put in front of each key.\<close>

record url_pattern =
  pat_prefix :: string
  pat_num_width :: int
  pat_base_num :: int
  pat_next_num :: int
  pat_base_url :: string
  pat_suffix :: string

text \<open>Lines 79 to 96 of \<open>parse\<close>, on the stripped, non-empty \<open>url\<close>.\<close>

definition parse_pattern :: "string \<Rightarrow> parse_error + url_pattern" where
  "parse_pattern url =
     (case re_search url of
        None \<Rightarrow> Inl NoNumericSequence
      | Some (p, num_str, q) \<Rightarrow>
          (case py_int num_str of
             None \<Rightarrow> Inl ValueError
           | Some n \<Rightarrow>
               Inr \<lparr> pat_prefix = p, pat_num_width = int (length num_str),
                     pat_base_num = n, pat_next_num = n + 1,
                     pat_base_url = [], pat_suffix = q \<rparr>))"





section \<open>The scan: route /scan\<close>

text \<open>
  The frames of the event stream, each with the fields of its JSON object in the order
  of the source: \<open>log(msg)\<close>, \<open>range(first, last)\<close>, \<open>checking(url, found, i, total)\<close>,
  \<open>hit(url, found)\<close>, \<open>stopped(reason)\<close>, \<open>done(found)\<close>. Log messages are kept in
  ASCII: a pictograph in front of a message is left out, a dash or an ellipsis is
  written with ASCII characters.
\<close>

datatype event =
    Log string
  | Range string string
  | Checking string int int int
  | Hit string int
  | Stopped string
  | Done int

text \<open>
  The request arguments of a scan, after their conversions at lines 101 to 115. The two
  delay bounds are floating-point numbers and are not part of the record; what the
  delay does is an answer of the environment below.
\<close>

record config =
  base_url :: string
  prefix :: string
  num_width :: int
  base_num :: int
  start_num :: int
  max_n :: int
  max_mis :: int
  click_mode :: bool
  auto_download :: bool
  exts_arg :: "string list"
  cookie_arg :: string

text \<open>\<open>exts\<close> after \<open>if not exts: exts = [""]\<close>, and the stripped cookie string.\<close>

definition exts :: "config \<Rightarrow> string list" where
  "exts cfg = (if exts_arg cfg = [] then [[]] else exts_arg cfg)"

definition cookie_str :: "config \<Rightarrow> string" where
  "cookie_str cfg = py_strip (cookie_arg cfg)"

definition USER_AGENTS :: "string list" where
  "USER_AGENTS =
    [''Mozilla/5.0 (Windows NT 10.0; Win64; x64) AppleWebKit/537.36 (KHTML, like Gecko) Chrome/122.0.0.0 Safari/537.36'',
     ''Mozilla/5.0 (Windows NT 10.0; Win64; x64; rv:124.0) Gecko/20100101 Firefox/124.0'',
     ''Mozilla/5.0 (Macintosh; Intel Mac OS X 14_3) AppleWebKit/605.1.15 (KHTML, like Gecko) Version/17.3 Safari/605.1.15'',
     ''Mozilla/5.0 (Windows NT 10.0; Win64; x64) AppleWebKit/537.36 (KHTML, like Gecko) Chrome/120.0.0.0 Safari/537.36 Edg/120.0.0.0'',
     ''Mozilla/5.0 (X11; Linux x86_64) AppleWebKit/537.36 (KHTML, like Gecko) Chrome/121.0.0.0 Safari/537.36'',
     ''Mozilla/5.0 (iPhone; CPU iPhone OS 17_3 like Mac OS X) AppleWebKit/605.1.15 Mobile/15E148 Safari/604.1'',
     ''Mozilla/5.0 (Windows NT 10.0) AppleWebKit/537.36 Chrome/119.0.0.0 Safari/537.36 OPR/105.0.0.0'',
     ''Mozilla/5.0 (Macintosh; Intel Mac OS X 13_6) AppleWebKit/537.36 Chrome/118.0.0.0 Safari/537.36'']"

definition HTML_CTYPES :: "string list" where
  "HTML_CTYPES = [''text/html'', ''text/plain'', ''text/xml'', ''application/xhtml+xml'']"

text \<open>
  \<open>itertools.cycle(USER_AGENTS)\<close> of line 127: the element the cycle yields at its
  \<open>n\<close>-th step. The scan never advances it.
\<close>

definition agent_cycle :: "nat \<Rightarrow> string" where
  "agent_cycle n = USER_AGENTS ! (n mod length USER_AGENTS)"

text \<open>
  The browser context of line 179 and a GET issued through it at line 384: the call
  passes no header, so the request carries the user agent of the context.
\<close>

record browser_context =
  ctx_user_agent :: string

record request =
  req_url :: string
  req_user_agent :: string

definition new_context :: browser_context where
  "new_context = \<lparr> ctx_user_agent = hd USER_AGENTS \<rparr>"

definition api_request :: "browser_context \<Rightarrow> string \<Rightarrow> request" where
  "api_request ctx url = \<lparr> req_url = url, req_user_agent = ctx_user_agent ctx \<rparr>"

subsection \<open>What the environment answers\<close>

record response =
  status :: int
  headers :: "string \<rightharpoonup> string"

datatype get_outcome = GetRaises string | GetReturns response

text \<open>
  One download selector on one page: no visible element; \<open>query_selector\<close> or
  \<open>is_visible\<close> raises; the click (or the download that is awaited and saved) raises;
  the click succeeds, with the suggested file name of the download.
\<close>

datatype sel_outcome =
    SelAbsent
  | SelQueryRaises string
  | SelClickRaises string
  | SelClicked string

text \<open>
  Every call that leaves the program is answered by the environment, an exception by
  its message: the import of the browser engine, its start, the launches and the
  install, the creation of context and page, the messages of the gate check, the GET
  of identifier \<open>i\<close> and extension number \<open>k\<close>, the saving of its body, the navigation
  and the selectors of click mode, the delay after a probe (\<open>time.sleep\<close> raises on a
  negative or oversized draw), and \<open>browser.close()\<close>.
\<close>

record env =
  browser_dir :: string
  import_fails :: bool
  start_exn :: "string option"
  launch_exn :: "string option"
  install_exn :: "string option"
  relaunch_exn :: "string option"
  context_exn :: "string option"
  gate_msgs :: "string list"
  get :: "nat \<Rightarrow> nat \<Rightarrow> request \<Rightarrow> get_outcome"
  save_exn :: "nat \<Rightarrow> nat \<Rightarrow> string option"
  goto_exn :: "nat \<Rightarrow> string option"
  selector :: "nat \<Rightarrow> nat \<Rightarrow> sel_outcome"
  sleep_exn :: "nat \<Rightarrow> nat \<Rightarrow> string option"
  close_exn :: "string option"

datatype exn = ImportError | Error string

subsection \<open>Launch, gate check and range preview\<close>

definition quote :: "string \<Rightarrow> string" where
  "quote s = CHR 0x27 # s @ [CHR 0x27]"

text \<open>The test of line 158 on the message of the failed launch.\<close>

definition missing_browser :: "string \<Rightarrow> bool" where
  "missing_browser msg =
     (let err_msg = py_lower msg
      in contains (''executable doesn'' @ [CHR 0x27] @ ''t exist'') err_msg
         \<or> contains ''playwright install'' err_msg
         \<or> contains ''not found'' err_msg)"

text \<open>Lines 145 to 177: the events, and the exception that leaves the block if any.\<close>

definition launch_browser :: "env \<Rightarrow> event list \<times> string option" where
  "launch_browser env =
     (case launch_exn env of
        None \<Rightarrow> ([], None)
      | Some e \<Rightarrow>
          if missing_browser e then
            (let missing = Log (''Chromium missing at '' @ browser_dir env @ ''. Attempting install...'')
             in case install_exn env of
                  Some install_err \<Rightarrow>
                    ([missing, Log (''Browser auto-install failed: '' @ install_err)],
                     Some install_err)
                | None \<Rightarrow>
                    (case relaunch_exn env of
                       Some install_err \<Rightarrow>
                         ([missing, Log ''Chromium installed. Launching...'',
                           Log (''Browser auto-install failed: '' @ install_err)],
                          Some install_err)
                     | None \<Rightarrow> ([missing, Log ''Chromium installed. Launching...''], None)))
          else ([], Some e))"

text \<open>
  Lines 184 to 284. The gate check drives the browser; each of its \<open>yield\<close>s is a log
  frame and every exception in it is caught at lines 278 to 281, so it adds log frames
  only: the first is fixed, the environment gives the messages of the others.
\<close>

definition gate_phase :: "config \<Rightarrow> env \<Rightarrow> event list" where
  "gate_phase cfg env =
     (if cookie_str cfg = [] \<and> \<not> click_mode cfg
      then Log ''Opening browser to handle age gate...'' # map Log (gate_msgs env)
      else if click_mode cfg
           then [Log ''Click Mode active: Skipping separate age gate check.'']
           else [])"

text \<open>\<open>str(n).zfill(num_width)\<close>\<close>

definition candidate :: "config \<Rightarrow> int \<Rightarrow> string" where
  "candidate cfg n = zfill (py_str n) (num_width cfg)"

text \<open>Lines 287 to 294; \<open>exts\<close> is never empty, so \<open>exts[0]\<close> and \<open>exts[-1]\<close> exist.\<close>

definition range_preview :: "config \<Rightarrow> event list" where
  "range_preview cfg =
     [Range (base_url cfg @ prefix cfg @ candidate cfg (start_num cfg) @ hd (exts cfg))
            (base_url cfg @ prefix cfg @ candidate cfg (start_num cfg + max_n cfg - 1)
               @ last (exts cfg)),
      Log (''Starting scan of '' @ py_str (max_n cfg)
             @ '' batches (using Browser Network Context)'')]"

subsection \<open>One probe\<close>

text \<open>\<open>if i < 3: yield ...\<close>\<close>

definition debug :: "nat \<Rightarrow> event list \<Rightarrow> event list" where
  "debug i evs = (if i < 3 then evs else [])"

text \<open>Lines 308 to 313: the URL that is shown and probed.\<close>

definition probe_url :: "config \<Rightarrow> nat \<Rightarrow> string \<Rightarrow> string" where
  "probe_url cfg i ext =
     (let num_str_pad = candidate cfg (start_num cfg + int i)
      in if click_mode cfg then prefix cfg @ num_str_pad
         else base_url cfg @ prefix cfg @ num_str_pad @ ext)"

text \<open>Line 384: the GET of a probe, issued through the page of the one browser context.\<close>

definition probe_request :: "config \<Rightarrow> nat \<Rightarrow> string \<Rightarrow> request" where
  "probe_request cfg i ext = api_request new_context (probe_url cfg i ext)"

text \<open>Line 387: \<open>headers.get("content-type", "").lower().split(";")[0].strip()\<close>\<close>

definition content_type :: "response \<Rightarrow> string" where
  "content_type resp =
     py_strip (hd (py_split (CHR '';'')
       (py_lower (case headers resp ''content-type'' of None \<Rightarrow> [] | Some v \<Rightarrow> v))))"

text \<open>\<open>f"{cl}"\<close> for the optional header value.\<close>

definition show_opt :: "string option \<Rightarrow> string" where
  "show_opt cl = (case cl of None \<Rightarrow> ''None'' | Some v \<Rightarrow> v)"

text \<open>
  The test of line 396, \<open>cl is not None and int(cl) < 10000\<close>; \<open>None\<close> is the
  \<open>ValueError\<close> of \<open>int\<close>.
\<close>

definition too_small :: "string option \<Rightarrow> bool option" where
  "too_small cl =
     (case cl of
        None \<Rightarrow> Some False
      | Some v \<Rightarrow> (case py_int v of None \<Rightarrow> None | Some n \<Rightarrow> Some (n < 10000)))"

text \<open>Lines 400 and 401: the file name under which a body is saved.\<close>

definition save_name :: "config \<Rightarrow> string \<Rightarrow> string \<Rightarrow> string" where
  "save_name cfg num_str_pad ext =
     (let fname = replace_char (CHR ''/'') (CHR ''_'')
                    (replace_char (CHR '':'') (CHR ''_'') (prefix cfg @ num_str_pad @ ext))
      in if CHR ''.'' \<in> set fname then fname else fname @ ''.bin'')"

text \<open>
  The body of the \<open>try\<close> of line 323 gives the events it emitted, the values of \<open>found\<close>
  and \<open>hit_this\<close> it left, and the exception that ended it, if any.
\<close>

type_synonym probe_result = "event list \<times> int \<times> bool \<times> string option"

text \<open>Lines 384 to 413, Direct Fetch mode.\<close>

definition probe_direct ::
  "config \<Rightarrow> env \<Rightarrow> nat \<Rightarrow> nat \<Rightarrow> string \<Rightarrow> int \<Rightarrow> bool \<Rightarrow> probe_result" where
  "probe_direct cfg env i k ext found hit_this =
     (let num_str_pad = candidate cfg (start_num cfg + int i);
          url = probe_url cfg i ext
      in case get env i k (probe_request cfg i ext) of
           GetRaises e \<Rightarrow> ([], found, hit_this, Some e)
         | GetReturns resp \<Rightarrow>
             (let ct = content_type resp;
                  cl = headers resp ''content-length'';
                  dbg = debug i [Log (num_str_pad @ ext @ '' -> Status '' @ py_str (status resp)
                                       @ '' | Type '' @ quote ct @ '' | Size '' @ show_opt cl)]
              in if status resp = 200 \<or> status resp = 206 then
                   if ct \<in> set HTML_CTYPES then
                     (dbg @ debug i [Log ''   Skipped: HTML content (Gate re-triggered?)''],
                      found, hit_this, None)
                   else
                     (case too_small cl of
                        None \<Rightarrow>
                          (dbg, found, hit_this,
                           Some (''invalid literal for int() with base 10: ''
                                   @ quote (show_opt cl)))
                      | Some True \<Rightarrow>
                          (dbg @ debug i [Log (''   Skipped: File too small ('' @ show_opt cl
                                                 @ '' bytes)'')],
                           found, hit_this, None)
                      | Some False \<Rightarrow>
                          if auto_download cfg then
                            (case save_exn env i k of
                               Some e \<Rightarrow> (dbg, found, hit_this, Some e)
                             | None \<Rightarrow>
                                 (dbg @ [Log (''File saved: '' @ save_name cfg num_str_pad ext),
                                         Hit url (found + 1)],
                                  found + 1, True, None))
                          else (dbg @ [Hit url (found + 1)], found + 1, True, None))
                 else if status resp = 403 then
                   (dbg @ [Log (''Blocked (403) on '' @ num_str_pad @ ext @ ''.'')],
                    found, hit_this, None)
                 else if status resp = 429 then
                   (dbg @ [Log ''Rate limited (429).''], found, hit_this, None)
                 else (dbg, found, hit_this, None)))"

text \<open>Lines 339 to 349.\<close>

definition download_selectors :: "string list" where
  \<open>download_selectors =
    [''button:has-text("Download all files")'',
     ''a:has-text("Download all files")'',
     ''button[class*="DownloadAll"]'',
     ''div[class*="DownloadAll"] button'',
     ''[data-testid="download-all-files"]'',
     ''button:has-text("Download")'',
     ''a:has-text("Download")'',
     ''button[aria-label*="Download" i]'',
     ''a[aria-label*="Download" i]'']\<close>

text \<open>
  Lines 351 to 373: the selectors in order, each inside its own \<open>try\<close>; the result is
  the events and \<open>found_btn\<close>.
\<close>

fun try_selectors :: "config \<Rightarrow> env \<Rightarrow> nat \<Rightarrow> (nat \<times> string) list \<Rightarrow> event list \<times> bool" where
  "try_selectors cfg env i [] = ([], False)"
| "try_selectors cfg env i ((j, sel) # rest) =
     (case selector env i j of
        SelAbsent \<Rightarrow> try_selectors cfg env i rest
      | SelQueryRaises e \<Rightarrow>
          (case try_selectors cfg env i rest of
             (evs, found_btn) \<Rightarrow>
               (debug i [Log (''   Skip selector '' @ sel @ '': '' @ e)] @ evs, found_btn))
      | SelClickRaises e \<Rightarrow>
          (case try_selectors cfg env i rest of
             (evs, found_btn) \<Rightarrow>
               (debug i [Log (''Clicking button: '' @ sel)]
                  @ debug i [Log (''   Skip selector '' @ sel @ '': '' @ e)] @ evs, found_btn))
      | SelClicked fname \<Rightarrow>
          (debug i [Log (''Clicking button: '' @ sel)]
             @ (if auto_download cfg then [Log (''File saved: '' @ fname)] else []), True))"

text \<open>
  Lines 327 to 380, click mode. A failure of \<open>page.goto\<close> leaves the \<open>try\<close>; the wait
  of lines 330 to 333 swallows its own failure.
\<close>

definition probe_click ::
  "config \<Rightarrow> env \<Rightarrow> nat \<Rightarrow> string \<Rightarrow> int \<Rightarrow> bool \<Rightarrow> probe_result" where
  "probe_click cfg env i url found hit_this =
     (case goto_exn env i of
        Some e \<Rightarrow> ([], found, hit_this, Some e)
      | None \<Rightarrow>
          (case try_selectors cfg env i (List.enumerate 0 download_selectors) of
             (evs, found_btn) \<Rightarrow>
               if found_btn then (evs @ [Hit url (found + 1)], found + 1, True, None)
               else (evs @ debug i [Log (''   Skipped: No download button found on ''
                                           @ quote url)],
                     found, hit_this, None)))"

text \<open>
  Lines 307 to 416: the \<open>checking\<close> frame, the \<open>try\<close> and its handler, which absorbs
  every exception of the body.
\<close>

definition probe_body ::
  "config \<Rightarrow> env \<Rightarrow> nat \<Rightarrow> nat \<Rightarrow> string \<Rightarrow> int \<Rightarrow> bool \<Rightarrow> probe_result" where
  "probe_body cfg env i k ext found hit_this =
     (if click_mode cfg then probe_click cfg env i (probe_url cfg i ext) found hit_this
      else probe_direct cfg env i k ext found hit_this)"

definition probe ::
  "config \<Rightarrow> env \<Rightarrow> nat \<Rightarrow> nat \<Rightarrow> string \<Rightarrow> int \<Rightarrow> bool \<Rightarrow> event list \<times> int \<times> bool" where
  "probe cfg env i k ext found hit_this =
     (let url = probe_url cfg i ext
      in case probe_body cfg env i k ext found hit_this of
           (evs, found', hit_this', ex) \<Rightarrow>
             (Checking url found (int i) (max_n cfg) # evs
                @ (case ex of
                     None \<Rightarrow> []
                   | Some e \<Rightarrow> debug i [Log (''   Request failure: '' @ e)]),
              found', hit_this'))"

subsection \<open>The loops\<close>

text \<open>Line 304.\<close>

definition ext_list_to_scan :: "config \<Rightarrow> string list" where
  "ext_list_to_scan cfg = (if click_mode cfg then [[]] else exts cfg)"

text \<open>
  Lines 306 to 418: the loop over the extensions of identifier \<open>i\<close>, each extension
  with its position \<open>k\<close>. The delay of line 418 stands outside the \<open>try\<close>: when it
  raises, the exception leaves the loops.
\<close>

fun scan_exts ::
  "config \<Rightarrow> env \<Rightarrow> nat \<Rightarrow> (nat \<times> string) list \<Rightarrow> int \<Rightarrow> bool \<Rightarrow> probe_result" where
  "scan_exts cfg env i [] found hit_this = ([], found, hit_this, None)"
| "scan_exts cfg env i ((k, ext) # rest) found hit_this =
     (case probe cfg env i k ext found hit_this of
        (evs, found', hit_this') \<Rightarrow>
          (case sleep_exn env i k of
             Some e \<Rightarrow> (evs, found', hit_this', Some e)
           | None \<Rightarrow>
               (case scan_exts cfg env i rest found' hit_this' of
                  (evs', r) \<Rightarrow> (evs @ evs', r))))"

definition stop_reason :: "config \<Rightarrow> string" where
  "stop_reason cfg = py_str (max_mis cfg) @ '' consecutive misses''"

text \<open>
  Lines 298 to 426: the loop over the identifiers still to visit, with \<open>found\<close> and
  \<open>consecutive\<close>. It gives the events, \<open>found\<close> and the exception that left it, if any.
\<close>

fun scan_loop ::
  "config \<Rightarrow> env \<Rightarrow> nat list \<Rightarrow> int \<Rightarrow> int \<Rightarrow> event list \<times> int \<times> string option" where
  "scan_loop cfg env [] found consecutive = ([], found, None)"
| "scan_loop cfg env (i # ids) found consecutive =
     (case scan_exts cfg env i (List.enumerate 0 (ext_list_to_scan cfg)) found False of
        (evs, found', hit_this, Some e) \<Rightarrow> (evs, found', Some e)
      | (evs, found', hit_this, None) \<Rightarrow>
          if hit_this then
            (case scan_loop cfg env ids found' 0 of (evs', r) \<Rightarrow> (evs @ evs', r))
          else if max_mis cfg \<le> consecutive + 1 then
            (evs @ [Stopped (stop_reason cfg)], found', None)
          else
            (case scan_loop cfg env ids found' (consecutive + 1) of
               (evs', r) \<Rightarrow> (evs @ evs', r)))"

subsection \<open>The generator\<close>

text \<open>
  The browser of a scan is active while it is open and the engine that started it
  runs: leaving the \<open>with\<close> block of line 144 stops the engine on every path.
\<close>

record session =
  playwright_running :: bool
  browser_open :: bool

definition session_active :: "session \<Rightarrow> bool" where
  "session_active s = (playwright_running s \<and> browser_open s)"

text \<open>
  Lines 145 to 430, inside the \<open>with\<close> block: the events, the exception that leaves
  the block if any, and whether the browser is still open.
\<close>

definition scan_body :: "config \<Rightarrow> env \<Rightarrow> event list \<times> string option \<times> bool" where
  "scan_body cfg env =
     (case launch_browser env of
        (evs0, Some e) \<Rightarrow> (evs0, Some e, False)
      | (evs0, None) \<Rightarrow>
          (case context_exn env of
             Some e \<Rightarrow> (evs0, Some e, True)
           | None \<Rightarrow>
               (let evs1 = evs0 @ gate_phase cfg env @ range_preview cfg
                in case scan_loop cfg env [0..<nat (max_n cfg)] 0 0 of
                     (evs2, found, Some e) \<Rightarrow> (evs1 @ evs2, Some e, True)
                   | (evs2, found, None) \<Rightarrow>
                       (case close_exn env of
                          Some e \<Rightarrow> (evs1 @ evs2, Some e, True)
                        | None \<Rightarrow>
                            (evs1 @ evs2
                               @ [Log (''Scan complete. '' @ py_str found
                                         @ '' URLs validated. Browser closed.''),
                                  Done found],
                             None, False)))))"

text \<open>Lines 142 to 430: the import, the \<open>with\<close> block and its exit.\<close>

definition run_playwright_logic :: "config \<Rightarrow> env \<Rightarrow> event list \<times> exn option \<times> session" where
  "run_playwright_logic cfg env =
     (if import_fails env then
        ([], Some ImportError, \<lparr> playwright_running = False, browser_open = False \<rparr>)
      else
        (case start_exn env of
           Some e \<Rightarrow> ([], Some (Error e), \<lparr> playwright_running = False, browser_open = False \<rparr>)
         | None \<Rightarrow>
             (case scan_body cfg env of
                (evs, ex, still_open) \<Rightarrow>
                  (evs, map_option Error ex,
                   \<lparr> playwright_running = False, browser_open = still_open \<rparr>))))"

text \<open>Lines 133 to 139: the number of cookie pairs that hold an equals sign.\<close>

definition cookie_count :: "string \<Rightarrow> int" where
  "cookie_count c =
     int (length (filter (\<lambda>pair. CHR ''='' \<in> set (py_strip pair)) (py_split (CHR '';'') c)))"

record scan_result =
  events :: "event list"
  caught :: "exn option"
  final_session :: session

text \<open>
  Lines 117 to 437, \<open>generate\<close>: the cookie frame, the frames of
  \<open>run_playwright_logic\<close>, and the frame of the handler that caught its exception.
  The set-up of the HTTP session (lines 118 to 138) emits nothing and is taken not to
  raise.
\<close>

definition generate :: "config \<Rightarrow> env \<Rightarrow> scan_result" where
  "generate cfg env =
     (let cookies = (if cookie_str cfg \<noteq> []
                     then [Log (py_str (cookie_count (cookie_str cfg))
                                  @ '' browser cookie(s) injected.'')]
                     else [])
      in case run_playwright_logic cfg env of
           (evs, ex, s) \<Rightarrow>
             \<lparr> events = cookies @ evs
                 @ (case ex of
                      None \<Rightarrow> []
                    | Some ImportError \<Rightarrow>
                        [Log ''Playwright not installed - scanning without gate bypass.'']
                    | Some (Error e) \<Rightarrow>
                        [Log (''Browser error: '' @ e @ '' - continuing anyway.'')]),
               caught = ex,
               final_session = s \<rparr>)"

subsection \<open>Reading an event stream\<close>

fun is_checking :: "event \<Rightarrow> bool" where
  "is_checking (Checking u f i t) = True"
| "is_checking e = False"

fun is_hit :: "event \<Rightarrow> bool" where
  "is_hit (Hit u f) = True"
| "is_hit e = False"

fun is_stopped :: "event \<Rightarrow> bool" where
  "is_stopped (Stopped r) = True"
| "is_stopped e = False"

fun is_done :: "event \<Rightarrow> bool" where
  "is_done (Done f) = True"
| "is_done e = False"

fun is_log :: "event \<Rightarrow> bool" where
  "is_log (Log m) = True"
| "is_log e = False"

definition terminal :: "event \<Rightarrow> bool" where
  "terminal e = (is_stopped e \<or> is_done e)"

definition hits :: "event list \<Rightarrow> nat" where
  "hits evs = length (filter is_hit evs)"

text \<open>An event stream without its log frames.\<close>

definition visible :: "event list \<Rightarrow> event list" where
  "visible evs = filter (\<lambda>e. \<not> is_log e) evs"

text \<open>The \<open>hit\<close> frames and the terminal frames of an event stream.\<close>

definition outcome :: "event list \<Rightarrow> event list" where
  "outcome evs = filter (\<lambda>e. is_hit e \<or> terminal e) evs"

text \<open>
  The counter of an event stream read from a count \<open>n\<close> of earlier hits: each \<open>hit\<close>
  carries one more than the hits before it, each \<open>checking\<close> and each \<open>done\<close> the
  number of hits before it.
\<close>

fun counts_ok :: "int \<Rightarrow> event list \<Rightarrow> bool" where
  "counts_ok n [] = True"
| "counts_ok n (Hit u f # es) = (f = n + 1 \<and> counts_ok (n + 1) es)"
| "counts_ok n (Checking u f i t # es) = (f = n \<and> counts_ok n es)"
| "counts_ok n (Done f # es) = (f = n \<and> counts_ok n es)"
| "counts_ok n (e # es) = counts_ok n es"

text \<open>
  What a probe leaves behind, whatever the environment: beside log frames either
  nothing, with \<open>found\<close> and \<open>hit_this\<close> as they were, or one \<open>hit\<close> frame that carries
  the new count, with \<open>hit_this\<close> set and no exception.
\<close>

definition probe_inv :: "string \<Rightarrow> int \<Rightarrow> bool \<Rightarrow> probe_result \<Rightarrow> bool" where
  "probe_inv url found hit_this r =
     (case r of
        (evs, found', hit_this', ex) \<Rightarrow>
          (filter (\<lambda>e. \<not> is_log e) evs = [] \<and> found' = found \<and> hit_this' = hit_this)
          \<or> (filter (\<lambda>e. \<not> is_log e) evs = [Hit url (found + 1)] \<and> found' = found + 1
              \<and> hit_this' \<and> ex = None))"



text \<open>Whether the probe of identifier \<open>i\<close> and extension \<open>k\<close> is a hit.\<close>

definition probe_hits :: "config \<Rightarrow> env \<Rightarrow> nat \<Rightarrow> nat \<Rightarrow> string \<Rightarrow> bool" where
  "probe_hits cfg env i k ext = snd (snd (probe cfg env i k ext 0 False))"

subsection \<open>Concrete scans\<close>

text \<open>
  A small Direct Fetch configuration, four responses, and an environment in which the
  browser starts, no call raises and every GET is answered by status 404.
\<close>

definition demo_cfg :: config where
  "demo_cfg =
     \<lparr> base_url = ''http://h/'', prefix = ''f'', num_width = 3, base_num = 1, start_num = 1,
       max_n = 3, max_mis = 5, click_mode = False, auto_download = False,
       exts_arg = [''.mp4''], cookie_arg = [] \<rparr>"

definition resp_missing :: response where
  "resp_missing = \<lparr> status = 404, headers = Map.empty \<rparr>"

definition resp_video :: response where
  "resp_video =
     \<lparr> status = 200,
       headers = [''content-type'' \<mapsto> ''video/mp4'', ''content-length'' \<mapsto> ''10000''] \<rparr>"



definition calm_env :: env where
  "calm_env =
     \<lparr> browser_dir = ''browsers'', import_fails = False, start_exn = None,
       launch_exn = None, install_exn = None, relaunch_exn = None, context_exn = None,
       gate_msgs = [],
       get = (\<lambda>i k r. GetReturns resp_missing),
       save_exn = (\<lambda>i k. None), goto_exn = (\<lambda>i. None), selector = (\<lambda>i j. SelAbsent),
       sleep_exn = (\<lambda>i k. None), close_exn = None \<rparr>"

text \<open>
  Variants: identifiers 2 and 3 answer with a video; every delay raises; every GET
  times out; every GET answers with a video that cannot be saved; the engine is not
  installed; the browser binary is missing and its install fails.
\<close>

definition video_env :: env where
  "video_env =
     calm_env \<lparr> get := (\<lambda>i k r. GetReturns (if i = 2 \<or> i = 3 then resp_video
                                              else resp_missing)) \<rparr>"


definition timeout_env :: env where
  "timeout_env = calm_env \<lparr> get := (\<lambda>i k r. GetRaises ''Timeout 12000ms exceeded'') \<rparr>"


definition no_engine_env :: env where
  "no_engine_env = calm_env \<lparr> import_fails := True \<rparr>"

definition no_browser_env :: env where
  "no_browser_env =
     calm_env \<lparr> launch_exn := Some (''Executable doesn'' @ [CHR 0x27] @ ''t exist at browsers'' ),
                install_exn := Some ''install failed'' \<rparr>"

text \<open>
  Click mode, and a page on which the click on the first download selector times out
  and the click on the second succeeds.
\<close>

definition click_cfg :: config where
  "click_cfg = demo_cfg \<lparr> click_mode := True \<rparr>"

definition flaky_selector_env :: env where
  "flaky_selector_env =
     calm_env \<lparr> selector := (\<lambda>i j. if j = 0 then SelClickRaises ''Timeout 30000ms exceeded''
                                     else SelClicked ''files.zip'') \<rparr>"



section \<open>Properties of the pattern extractor\<close>

subsection \<open>What the matcher computes\<close>











text \<open>
  The first example of the specification, \<open>clip00042.mp4\<close>: the last run of digits
  is the \<open>4\<close> of the extension, not \<open>00042\<close>.
\<close>

lemma parse_pattern_mp4_example:
  "parse_pattern ''https://a.example/clip00042.mp4''
     = Inr \<lparr> pat_prefix = ''https://a.example/clip00042.mp'', pat_num_width = 1,
             pat_base_num = 4, pat_next_num = 5, pat_base_url = [], pat_suffix = [] \<rparr>"
  by code_simp

subsection \<open>Digits and zero padding\<close>

lemma digit_cases: "d < 10 \<longleftrightarrow> d \<in> {0, 1, 2, 3, 4, 5, 6, 7, 8, 9::nat}"
  by auto

lemma digit_char_digit: "d < 10 \<Longrightarrow> is_digit (digit_char d)"
  by (auto simp: digit_cases is_digit_def digit_char_def)














subsection \<open>The round trip\<close>





section \<open>Properties of a probe\<close>

lemma debug_logs: "filter (\<lambda>e. \<not> is_log e) (debug i [Log m]) = []"
  by (simp add: debug_def)

lemma try_selectors_logs:
  "filter (\<lambda>e. \<not> is_log e) (fst (try_selectors cfg env i sels)) = []"
  by (induction sels) (auto simp: debug_logs split: sel_outcome.splits prod.splits)

lemma probe_click_inv:
  "probe_inv url found hit_this (probe_click cfg env i url found hit_this)"
  using try_selectors_logs[of cfg env i "List.enumerate 0 download_selectors"]
  by (auto simp: probe_inv_def probe_click_def debug_logs split: option.splits prod.splits)

lemma probe_direct_inv:
  "probe_inv (probe_url cfg i ext) found hit_this (probe_direct cfg env i k ext found hit_this)"
  by (auto simp: probe_inv_def probe_direct_def Let_def debug_logs
      split: get_outcome.splits option.splits bool.splits)

lemma probe_body_inv:
  "probe_inv (probe_url cfg i ext) found hit_this (probe_body cfg env i k ext found hit_this)"
  by (simp add: probe_body_def probe_click_inv probe_direct_inv)

lemma probe_body_found:
  "fst (snd (probe_body cfg env i k ext found hit_this))
     = found + fst (snd (probe_body cfg env i k ext 0 False))"
  by (auto simp: probe_body_def probe_direct_def probe_click_def Let_def
      split: get_outcome.splits option.splits bool.splits prod.splits)

lemma probe_summary:
  assumes "probe cfg env i k ext found hit_this = (evs, found', hit_this')"
  shows "found' = found + (if probe_hits cfg env i k ext then 1 else 0)"
    and "hit_this' = (hit_this \<or> probe_hits cfg env i k ext)"
    and "filter (\<lambda>e. \<not> is_log e) evs
           = Checking (probe_url cfg i ext) found (int i) (max_n cfg)
               # (if probe_hits cfg env i k ext
                  then [Hit (probe_url cfg i ext) (found + 1)] else [])"
proof -
  obtain e0 f0 h0 x0 where b0: "probe_body cfg env i k ext 0 False = (e0, f0, h0, x0)"
    by (cases "probe_body cfg env i k ext 0 False") auto
  obtain e1 f1 h1 x1 where b1: "probe_body cfg env i k ext found hit_this = (e1, f1, h1, x1)"
    by (cases "probe_body cfg env i k ext found hit_this") auto
  have ph: "probe_hits cfg env i k ext = h0"
    using b0 by (simp add: probe_hits_def probe_def)
  have f: "f1 = found + f0"
    using probe_body_found[of cfg env i k ext found hit_this] b0 b1 by simp
  have i0: "(f0 = 0 \<and> \<not> h0) \<or> (f0 = 1 \<and> h0)"
    using probe_body_inv[of cfg i ext 0 False env k] b0 by (auto simp: probe_inv_def)
  have i1: "(filter (\<lambda>e. \<not> is_log e) e1 = [] \<and> f1 = found \<and> h1 = hit_this)
            \<or> (filter (\<lambda>e. \<not> is_log e) e1 = [Hit (probe_url cfg i ext) (found + 1)]
                \<and> f1 = found + 1 \<and> h1 \<and> x1 = None)"
    using probe_body_inv[of cfg i ext found hit_this env k] b1 by (simp add: probe_inv_def)
  have p: "evs = Checking (probe_url cfg i ext) found (int i) (max_n cfg) # e1
                   @ (case x1 of None \<Rightarrow> [] | Some e \<Rightarrow> debug i [Log (''   Request failure: '' @ e)])"
          "found' = f1" "hit_this' = h1"
    using assms b1 by (auto simp: probe_def)
  show "found' = found + (if probe_hits cfg env i k ext then 1 else 0)"
    using p f i0 ph by auto
  show "hit_this' = (hit_this \<or> probe_hits cfg env i k ext)"
    using p f i0 i1 ph by auto
  show "filter (\<lambda>e. \<not> is_log e) evs
           = Checking (probe_url cfg i ext) found (int i) (max_n cfg)
               # (if probe_hits cfg env i k ext
                  then [Hit (probe_url cfg i ext) (found + 1)] else [])"
    using p f i0 i1 ph by (auto simp: debug_logs split: option.splits)
qed

section \<open>Properties of the loops\<close>

lemma counts_ok_append:
  "counts_ok n (xs @ ys) \<longleftrightarrow> counts_ok n xs \<and> counts_ok (n + int (hits xs)) ys"
  by (induction n xs rule: counts_ok.induct) (auto simp: hits_def add.assoc)

lemma hits_pos: "(\<exists>e\<in>set evs. is_hit e) \<longleftrightarrow> 0 < hits evs"
  by (auto simp: hits_def filter_empty_conv)

lemma counts_ok_visible: "counts_ok n (visible evs) = counts_ok n evs"
  by (induction n evs rule: counts_ok.induct) (auto simp: visible_def)

lemma hits_visible: "hits (visible evs) = hits evs"
  by (induction evs) (auto simp: visible_def hits_def elim: is_log.elims)

lemma hits_append: "hits (xs @ ys) = hits xs + hits ys"
  by (simp add: hits_def)

lemma visible_append: "visible (xs @ ys) = visible xs @ visible ys"
  by (simp add: visible_def)

lemma probe_counts:
  assumes "probe cfg env i k ext found hit_this = (evs, found', hit_this')"
  shows "counts_ok found evs \<and> found' = found + int (hits evs)
         \<and> hit_this' = (hit_this \<or> (\<exists>e\<in>set evs. is_hit e))
         \<and> (\<forall>e\<in>set evs. \<not> terminal e)"
proof -
  note s = probe_summary[OF assms]
  have v: "counts_ok found (visible evs)" "hits (visible evs) = (if probe_hits cfg env i k ext then 1 else 0)"
    using s(3) by (auto simp: visible_def hits_def)
  have h: "(\<exists>e\<in>set evs. is_hit e) \<longleftrightarrow> probe_hits cfg env i k ext"
    using v(2) hits_visible[of evs] by (simp add: hits_pos split: if_splits)
  have t: "\<forall>e\<in>set evs. \<not> terminal e"
  proof
    fix e assume "e \<in> set evs"
    show "\<not> terminal e"
    proof
      assume te: "terminal e"
      then have "\<not> is_log e" by (cases e) (auto simp: terminal_def)
      with \<open>e \<in> set evs\<close> have "e \<in> set (filter (\<lambda>e. \<not> is_log e) evs)" by simp
      with s(3) te show False by (auto simp: terminal_def split: if_splits)
    qed
  qed
  show ?thesis using v s(1,2) h t counts_ok_visible[of found evs] hits_visible[of evs] by auto
qed

lemma scan_exts_counts:
  "scan_exts cfg env i kexts found hit_this = (evs, found', hit_this', ex) \<Longrightarrow>
     counts_ok found evs \<and> found' = found + int (hits evs)
       \<and> hit_this' = (hit_this \<or> (\<exists>e\<in>set evs. is_hit e))
       \<and> (\<forall>e\<in>set evs. \<not> terminal e)"
proof (induction kexts arbitrary: found hit_this evs found' hit_this' ex)
  case Nil
  then show ?case by (simp add: hits_def)
next
  case (Cons a kexts)
  obtain k ext where a: "a = (k, ext)" by (cases a)
  obtain e1 f1 h1 where p: "probe cfg env i k ext found hit_this = (e1, f1, h1)"
    by (cases "probe cfg env i k ext found hit_this") auto
  note pc = probe_counts[OF p]
  show ?case
  proof (cases "sleep_exn env i k")
    case (Some e)
    with Cons.prems a p pc show ?thesis by auto
  next
    case None
    obtain e2 f2 h2 x2 where r: "scan_exts cfg env i kexts f1 h1 = (e2, f2, h2, x2)"
      by (cases "scan_exts cfg env i kexts f1 h1") auto
    from Cons.IH[OF r] pc Cons.prems a p None r show ?thesis
      by (auto simp: counts_ok_append hits_append)
  qed
qed

lemma scan_loop_counts:
  "scan_loop cfg env ids found consecutive = (evs, found', ex) \<Longrightarrow>
     counts_ok found evs \<and> found' = found + int (hits evs) \<and> (\<forall>e\<in>set evs. \<not> is_done e)"
proof (induction ids arbitrary: found consecutive evs found' ex)
  case Nil
  then show ?case by (simp add: hits_def)
next
  case (Cons i ids)
  obtain e1 f1 h1 x1 where
    x: "scan_exts cfg env i (List.enumerate 0 (ext_list_to_scan cfg)) found False = (e1, f1, h1, x1)"
    by (cases "scan_exts cfg env i (List.enumerate 0 (ext_list_to_scan cfg)) found False") auto
  note xc = scan_exts_counts[OF x]
  have nd: "\<forall>e\<in>set e1. \<not> is_done e" using xc by (auto simp: terminal_def)
  show ?case
  proof (cases x1)
    case (Some e)
    with Cons.prems x xc nd show ?thesis by auto
  next
    case None
    show ?thesis
    proof (cases h1)
      case True
      obtain e2 f2 x2 where r: "scan_loop cfg env ids f1 0 = (e2, f2, x2)"
        by (cases "scan_loop cfg env ids f1 0") auto
      from Cons.IH[OF r] Cons.prems x xc nd None True r show ?thesis
        by (auto simp: counts_ok_append hits_append)
    next
      case False
      show ?thesis
      proof (cases "max_mis cfg \<le> consecutive + 1")
        case True
        with Cons.prems x xc nd None False show ?thesis
          by (auto simp: counts_ok_append hits_append hits_def)
      next
        case nstop: False
        obtain e2 f2 x2 where r: "scan_loop cfg env ids f1 (consecutive + 1) = (e2, f2, x2)"
          by (cases "scan_loop cfg env ids f1 (consecutive + 1)") auto
        from Cons.IH[OF r] Cons.prems x xc nd None False nstop r show ?thesis
          by (auto simp: counts_ok_append hits_append)
      qed
    qed
  qed
qed

lemma enumerate_single: "List.enumerate 0 [x] = [(0, x)]"
  by simp

lemma scan_exts_single:
  assumes "sleep_exn env i 0 = None" "probe cfg env i 0 ext found hit_this = (evs, found', hit_this')"
  shows "scan_exts cfg env i [(0, ext)] found hit_this = (evs, found', hit_this', None)"
  using assms by simp

lemma loop_step_single:
  assumes "ext_list_to_scan cfg = [ext]" "sleep_exn env i 0 = None"
  shows "scan_loop cfg env (i # ids) found c =
           (let evs = fst (probe cfg env i 0 ext found False)
            in if probe_hits cfg env i 0 ext
               then (case scan_loop cfg env ids (found + 1) 0 of (evs', r) \<Rightarrow> (evs @ evs', r))
               else if max_mis cfg \<le> c + 1
                    then (evs @ [Stopped (stop_reason cfg)], found, None)
                    else (case scan_loop cfg env ids found (c + 1) of
                            (evs', r) \<Rightarrow> (evs @ evs', r)))"
proof -
  obtain evs f h where p: "probe cfg env i 0 ext found False = (evs, f, h)"
    by (cases "probe cfg env i 0 ext found False") auto
  note s = probe_summary[OF p]
  have x: "scan_exts cfg env i (List.enumerate 0 (ext_list_to_scan cfg)) found False
             = (evs, f, h, None)"
    using assms p by simp
  show ?thesis using x p s(1,2) by (simp add: Let_def)
qed

lemma visible_probe:
  "visible (fst (probe cfg env i k ext found hit_this))
     = Checking (probe_url cfg i ext) found (int i) (max_n cfg)
         # (if probe_hits cfg env i k ext then [Hit (probe_url cfg i ext) (found + 1)] else [])"
proof -
  obtain evs f h where p: "probe cfg env i k ext found hit_this = (evs, f, h)"
    by (cases "probe cfg env i k ext found hit_this") auto
  from probe_summary(3)[OF p] p show ?thesis by (simp add: visible_def)
qed

lemma miss_run:
  assumes "ext_list_to_scan cfg = [ext]"
    and "\<forall>i\<in>set ids. \<not> probe_hits cfg env i 0 ext"
    and "\<forall>i\<in>set ids. sleep_exn env i 0 = None"
    and "c < max_mis cfg" and "nat (max_mis cfg - c) \<le> length ids"
  shows "snd (scan_loop cfg env ids found c) = (found, None) \<and>
         visible (fst (scan_loop cfg env ids found c))
           = map (\<lambda>i. Checking (probe_url cfg i ext) found (int i) (max_n cfg))
                 (take (nat (max_mis cfg - c)) ids)
             @ [Stopped (stop_reason cfg)]"
  using assms(2-)
proof (induction ids arbitrary: c)
  case Nil
  then show ?case by simp
next
  case (Cons i ids)
  have st: "scan_loop cfg env (i # ids) found c =
           (let evs = fst (probe cfg env i 0 ext found False)
            in if max_mis cfg \<le> c + 1
               then (evs @ [Stopped (stop_reason cfg)], found, None)
               else (case scan_loop cfg env ids found (c + 1) of
                       (evs', r) \<Rightarrow> (evs @ evs', r)))"
    using loop_step_single[OF assms(1), of env i ids found c] Cons.prems(1,2) by simp
  have vp: "visible (fst (probe cfg env i 0 ext found False))
              = [Checking (probe_url cfg i ext) found (int i) (max_n cfg)]"
    using visible_probe[of cfg env i 0 ext found False] Cons.prems(1) by simp
  show ?case
  proof (cases "max_mis cfg \<le> c + 1")
    case True
    with Cons.prems(3) have "nat (max_mis cfg - c) = 1" by simp
    with st vp True show ?thesis by (simp add: Let_def visible_append visible_def)
  next
    case False
    then have c1: "c + 1 < max_mis cfg" by simp
    have len: "nat (max_mis cfg - (c + 1)) \<le> length ids" using Cons.prems(4) False by simp
    have tk: "nat (max_mis cfg - c) = Suc (nat (max_mis cfg - (c + 1)))" using False by simp
    from Cons.IH[OF _ _ c1 len] Cons.prems(1,2)
    have ih: "snd (scan_loop cfg env ids found (c + 1)) = (found, None)"
      "visible (fst (scan_loop cfg env ids found (c + 1)))
         = map (\<lambda>i. Checking (probe_url cfg i ext) found (int i) (max_n cfg))
               (take (nat (max_mis cfg - (c + 1))) ids)
           @ [Stopped (stop_reason cfg)]"
      by simp_all
    show ?thesis using st vp False ih tk
      by (simp add: Let_def visible_append split: prod.splits)
  qed
qed

section \<open>Properties of the generator\<close>

lemma terminal_simps:
  "terminal (Stopped r)" "terminal (Done f)" "\<not> terminal (Log m)" "\<not> terminal (Range a b)"
  "\<not> terminal (Checking u f i t)" "\<not> terminal (Hit u f)"
  by (simp_all add: terminal_def)

lemma quiet_counts:
  "\<forall>e\<in>set evs. \<not> is_hit e \<and> \<not> is_checking e \<and> \<not> terminal e \<Longrightarrow>
     counts_ok n evs \<and> hits evs = 0"
  by (induction n evs rule: counts_ok.induct) (auto simp: hits_def terminal_def)

lemma launch_quiet: "\<forall>e\<in>set (fst (launch_browser env)). is_log e"
  by (auto simp: launch_browser_def Let_def split: option.splits)

lemma gate_quiet: "\<forall>e\<in>set (gate_phase cfg env). is_log e"
  by (auto simp: gate_phase_def)

lemma range_quiet:
  "\<forall>e\<in>set (range_preview cfg). \<not> is_hit e \<and> \<not> is_checking e \<and> \<not> terminal e"
  by (auto simp: range_preview_def terminal_def)

lemma log_quiet: "is_log e \<Longrightarrow> \<not> is_hit e \<and> \<not> is_checking e \<and> \<not> terminal e"
  by (cases e) (auto simp: terminal_def)


text \<open>The frames in front of the loop.\<close>

lemma generate_cases:
  obtains
    (early) "caught (generate cfg env) \<noteq> None"
      "\<forall>e\<in>set (events (generate cfg env)). \<not> is_hit e \<and> \<not> is_checking e \<and> \<not> terminal e"
      "\<not> session_active (final_session (generate cfg env))"
  | (aborted) front evs found rest where
      "caught (generate cfg env) \<noteq> None"
      "events (generate cfg env) = front @ evs @ rest"
      "\<forall>e\<in>set front. \<not> is_hit e \<and> \<not> is_checking e \<and> \<not> terminal e"
      "\<forall>e\<in>set rest. \<not> is_hit e \<and> \<not> is_checking e \<and> \<not> terminal e"
      "\<exists>ex. scan_loop cfg env [0..<nat (max_n cfg)] 0 0 = (evs, found, ex)"
      "\<not> session_active (final_session (generate cfg env))"
  | (finished) front evs found m where
      "caught (generate cfg env) = None"
      "events (generate cfg env) = front @ evs @ [Log m, Done found]"
      "\<forall>e\<in>set front. \<not> is_hit e \<and> \<not> is_checking e \<and> \<not> terminal e"
      "scan_loop cfg env [0..<nat (max_n cfg)] 0 0 = (evs, found, None)"
      "\<not> browser_open (final_session (generate cfg env))"
proof -
  let ?cookies = "if cookie_str cfg \<noteq> []
                  then [Log (py_str (cookie_count (cookie_str cfg)) @ '' browser cookie(s) injected.'')]
                  else []"
  have cq: "\<forall>e\<in>set ?cookies. \<not> is_hit e \<and> \<not> is_checking e \<and> \<not> terminal e"
    by (simp add: terminal_def)
  obtain l0 lx where l: "launch_browser env = (l0, lx)" by (cases "launch_browser env") auto
  have lq: "\<forall>e\<in>set l0. \<not> is_hit e \<and> \<not> is_checking e \<and> \<not> terminal e"
    using launch_quiet[of env] l log_quiet by auto
  have gq: "\<forall>e\<in>set (gate_phase cfg env). \<not> is_hit e \<and> \<not> is_checking e \<and> \<not> terminal e"
    using gate_quiet[of cfg env] log_quiet by auto
  obtain evs found ex where lp: "scan_loop cfg env [0..<nat (max_n cfg)] 0 0 = (evs, found, ex)"
    by (cases "scan_loop cfg env [0..<nat (max_n cfg)] 0 0") auto
  let ?front = "?cookies @ l0 @ gate_phase cfg env @ range_preview cfg"
  have fq: "\<forall>e\<in>set ?front. \<not> is_hit e \<and> \<not> is_checking e \<and> \<not> terminal e"
    using cq lq gq range_quiet[of cfg] by auto
  consider (a) "import_fails env" | (b) "\<not> import_fails env" "start_exn env \<noteq> None"
    | (c) "\<not> import_fails env" "start_exn env = None" "lx \<noteq> None"
    | (d) "\<not> import_fails env" "start_exn env = None" "lx = None" "context_exn env \<noteq> None"
    | (e) "\<not> import_fails env" "start_exn env = None" "lx = None" "context_exn env = None"
          "ex \<noteq> None"
    | (f) "\<not> import_fails env" "start_exn env = None" "lx = None" "context_exn env = None"
          "ex = None" "close_exn env \<noteq> None"
    | (g) "\<not> import_fails env" "start_exn env = None" "lx = None" "context_exn env = None"
          "ex = None" "close_exn env = None"
    by blast
  then show thesis
  proof cases
    case a
    show ?thesis
      by (rule early) (use a cq in \<open>auto simp: generate_def run_playwright_logic_def
          session_active_def terminal_def\<close>)
  next
    case b
    show ?thesis
      by (rule early) (use b cq in \<open>auto simp: generate_def run_playwright_logic_def
          session_active_def terminal_def\<close>)
  next
    case c
    show ?thesis
      by (rule early) (use c l lq in \<open>auto simp: generate_def run_playwright_logic_def
          scan_body_def session_active_def terminal_def\<close>)
  next
    case d
    show ?thesis
      by (rule early) (use d l lq in \<open>auto simp: generate_def run_playwright_logic_def
          scan_body_def session_active_def terminal_def\<close>)
  next
    case e
    then obtain m where m: "ex = Some m" by auto
    show ?thesis
    proof (rule aborted[of ?front evs "[Log (''Browser error: '' @ m @ '' - continuing anyway.'')]" found])
      show "caught (generate cfg env) \<noteq> None"
        using e l lp m by (simp add: generate_def run_playwright_logic_def scan_body_def)
      show "events (generate cfg env) = ?front @ evs @ [Log (''Browser error: '' @ m @ '' - continuing anyway.'')]"
        using e l lp m by (simp add: generate_def run_playwright_logic_def scan_body_def)
      show "\<forall>e\<in>set ?front. \<not> is_hit e \<and> \<not> is_checking e \<and> \<not> terminal e" by (rule fq)
      show "\<forall>e\<in>set [Log (''Browser error: '' @ m @ '' - continuing anyway.'')].
              \<not> is_hit e \<and> \<not> is_checking e \<and> \<not> terminal e"
        by (simp add: terminal_def)
      show "\<exists>ex. scan_loop cfg env [0..<nat (max_n cfg)] 0 0 = (evs, found, ex)"
        using lp by blast
      show "\<not> session_active (final_session (generate cfg env))"
        using e l lp m by (simp add: generate_def run_playwright_logic_def scan_body_def session_active_def)
    qed
  next
    case f
    then obtain m where m: "close_exn env = Some m" by auto
    show ?thesis
    proof (rule aborted[of ?front evs "[Log (''Browser error: '' @ m @ '' - continuing anyway.'')]" found])
      show "caught (generate cfg env) \<noteq> None"
        using f l lp m by (simp add: generate_def run_playwright_logic_def scan_body_def)
      show "events (generate cfg env) = ?front @ evs @ [Log (''Browser error: '' @ m @ '' - continuing anyway.'')]"
        using f l lp m by (simp add: generate_def run_playwright_logic_def scan_body_def)
      show "\<forall>e\<in>set ?front. \<not> is_hit e \<and> \<not> is_checking e \<and> \<not> terminal e" by (rule fq)
      show "\<forall>e\<in>set [Log (''Browser error: '' @ m @ '' - continuing anyway.'')].
              \<not> is_hit e \<and> \<not> is_checking e \<and> \<not> terminal e"
        by (simp add: terminal_def)
      show "\<exists>ex. scan_loop cfg env [0..<nat (max_n cfg)] 0 0 = (evs, found, ex)"
        using lp by blast
      show "\<not> session_active (final_session (generate cfg env))"
        using f l lp m by (simp add: generate_def run_playwright_logic_def scan_body_def session_active_def)
    qed
  next
    case g
    show ?thesis
    proof (rule finished[of ?front evs "''Scan complete. '' @ py_str found @ '' URLs validated. Browser closed.''" found])
      show "caught (generate cfg env) = None"
        using g l lp by (simp add: generate_def run_playwright_logic_def scan_body_def)
      show "events (generate cfg env) = ?front @ evs @ [Log (''Scan complete. '' @ py_str found @ '' URLs validated. Browser closed.''), Done found]"
        using g l lp by (simp add: generate_def run_playwright_logic_def scan_body_def)
      show "\<forall>e\<in>set ?front. \<not> is_hit e \<and> \<not> is_checking e \<and> \<not> terminal e" by (rule fq)
      show "scan_loop cfg env [0..<nat (max_n cfg)] 0 0 = (evs, found, None)"
        using lp g by simp
      show "\<not> browser_open (final_session (generate cfg env))"
        using g l lp by (simp add: generate_def run_playwright_logic_def scan_body_def)
    qed
  qed
qed

lemma counts_ok_nth:
  "counts_ok n evs \<Longrightarrow> j < length evs \<Longrightarrow>
     (case evs ! j of
        Hit u f \<Rightarrow> f = n + int (hits (take j evs)) + 1
      | Checking u f i t \<Rightarrow> f = n + int (hits (take j evs))
      | Done f \<Rightarrow> f = n + int (hits (take j evs))
      | _ \<Rightarrow> True)"
proof (induction evs arbitrary: n j)
  case Nil
  then show ?case by simp
next
  case (Cons e es)
  show ?case
  proof (cases j)
    case 0
    with Cons.prems show ?thesis by (cases e) (auto simp: hits_def)
  next
    case (Suc j')
    let ?n' = "n + int (hits [e])"
    have "counts_ok ?n' es" using Cons.prems(1) by (cases e) (auto simp: hits_def)
    moreover have "j' < length es" using Suc Cons.prems(2) by simp
    ultimately have
      "case es ! j' of
         Hit u f \<Rightarrow> f = ?n' + int (hits (take j' es)) + 1
       | Checking u f i t \<Rightarrow> f = ?n' + int (hits (take j' es))
       | Done f \<Rightarrow> f = ?n' + int (hits (take j' es))
       | _ \<Rightarrow> True"
      by (rule Cons.IH)
    moreover have "hits (take j (e # es)) = hits [e] + hits (take j' es)"
      using Suc by (simp add: hits_def)
    ultimately show ?thesis using Suc by (auto split: event.splits)
  qed
qed

lemma nth_front_mem: "j < length xs \<Longrightarrow> (xs @ ys) ! j \<in> set xs"
  by (simp add: nth_append)

lemma generate_counts: "counts_ok 0 (events (generate cfg env))"
proof (cases rule: generate_cases[of cfg env])
  case early
  then show ?thesis using quiet_counts[of "events (generate cfg env)" 0] by simp
next
  case (aborted front evs found rest)
  from aborted(5) obtain ex where "scan_loop cfg env [0..<nat (max_n cfg)] 0 0 = (evs, found, ex)"
    by blast
  from scan_loop_counts[OF this] quiet_counts[OF aborted(3), of 0]
    quiet_counts[OF aborted(4), of "int (hits evs)"] aborted(2)
  show ?thesis by (simp add: counts_ok_append)
next
  case (finished front evs found m)
  from scan_loop_counts[OF finished(4)] quiet_counts[OF finished(3), of 0] finished(2)
  show ?thesis by (simp add: counts_ok_append)
qed

lemma generate_done:
  assumes "j < length (events (generate cfg env))" "events (generate cfg env) ! j = Done f"
  shows "hits (take j (events (generate cfg env))) = hits (events (generate cfg env))"
proof (cases rule: generate_cases[of cfg env])
  case early
  from assms have "Done f \<in> set (events (generate cfg env))" by (metis nth_mem)
  with early(2) show ?thesis by (auto simp: terminal_simps)
next
  case (aborted front evs found rest)
  from aborted(5) obtain ex where "scan_loop cfg env [0..<nat (max_n cfg)] 0 0 = (evs, found, ex)"
    by blast
  from scan_loop_counts[OF this] have "\<forall>e\<in>set evs. \<not> is_done e" by simp
  moreover from assms have "Done f \<in> set (events (generate cfg env))" by (metis nth_mem)
  ultimately show ?thesis using aborted(2,3,4) by (auto simp: terminal_simps)
next
  case (finished front evs found m)
  let ?pre = "front @ evs @ [Log m]"
  have e: "events (generate cfg env) = ?pre @ [Done found]" using finished(2) by simp
  have nd: "\<forall>e\<in>set ?pre. \<not> is_done e"
    using scan_loop_counts[OF finished(4)] finished(3) by (auto simp: terminal_def)
  have "j = length ?pre"
  proof (rule ccontr)
    assume "j \<noteq> length ?pre"
    with assms(1) e have "j < length ?pre" by simp
    then have "events (generate cfg env) ! j \<in> set ?pre"
      unfolding e by (rule nth_front_mem)
    with nd assms(2) show False by (metis is_done.simps(1))
  qed
  then show ?thesis unfolding e by (simp add: hits_def)
qed

section \<open>The claims about the event stream and the session\<close>

text \<open>
  C10. In the event stream of every scan the hit counter is consistent: a \<open>hit\<close>
  frame carries one more than the number of \<open>hit\<close> frames before it (the n-th carries
  n), a \<open>checking\<close> frame carries the number of \<open>hit\<close> frames before it, and the
  \<open>done\<close> frame carries the number of all \<open>hit\<close> frames of the stream.
\<close>

theorem hit_counter_consistent:
  "j < length (events (generate cfg env)) \<Longrightarrow>
     (case events (generate cfg env) ! j of
        Hit u f \<Rightarrow> f = int (hits (take j (events (generate cfg env)))) + 1
      | Checking u f i t \<Rightarrow> f = int (hits (take j (events (generate cfg env))))
      | Done f \<Rightarrow> f = int (hits (events (generate cfg env)))
      | _ \<Rightarrow> True)"
  using counts_ok_nth[OF generate_counts, of j cfg env] generate_done[of j cfg env]
  by (auto split: event.splits)

theorem hit_counter_consistent_witness:
  "9 < length (events (generate demo_cfg video_env))
   \<and> events (generate demo_cfg video_env) ! 9 = Hit ''http://h/f003.mp4'' 1
   \<and> (1::int) = int (hits (take 9 (events (generate demo_cfg video_env)))) + 1"
proof -
  have h: "9 < length (events (generate demo_cfg video_env))" by code_simp
  have e: "events (generate demo_cfg video_env) ! 9 = Hit ''http://h/f003.mp4'' 1" by code_simp
  from hit_counter_consistent[OF h] h e show ?thesis by simp
qed





section \<open>Further facts for the claims about probes and loops\<close>

lemma demo_misses: "\<not> probe_hits (demo_cfg \<lparr> max_n := 8 \<rparr>) calm_env i 0 ''.mp4''"
  by (simp add: probe_hits_def probe_def probe_body_def probe_direct_def demo_cfg_def
      calm_env_def resp_missing_def Let_def)





lemma calm_loop:
  "\<forall>i k. sleep_exn env i k = None \<Longrightarrow>
     scan_exts cfg env i kexts found h = (evs, found', h', ex) \<Longrightarrow> ex = None"
proof (induction kexts arbitrary: found h evs found' h' ex)
  case Nil
  then show ?case by simp
next
  case (Cons a kexts)
  obtain k ext where a: "a = (k, ext)" by (cases a)
  obtain e1 f1 h1 where p: "probe cfg env i k ext found h = (e1, f1, h1)"
    by (cases "probe cfg env i k ext found h") auto
  obtain e2 f2 h2 x2 where r: "scan_exts cfg env i kexts f1 h1 = (e2, f2, h2, x2)"
    by (cases "scan_exts cfg env i kexts f1 h1") auto
  from Cons.IH[OF Cons.prems(1) r] Cons.prems a p r show ?case by simp
qed

lemma calm_scan:
  "\<forall>i k. sleep_exn env i k = None \<Longrightarrow> snd (snd (scan_loop cfg env ids found c)) = None"
proof (induction ids arbitrary: found c)
  case Nil
  then show ?case by simp
next
  case (Cons i ids)
  obtain e1 f1 h1 x1 where
    x: "scan_exts cfg env i (List.enumerate 0 (ext_list_to_scan cfg)) found False = (e1, f1, h1, x1)"
    by (cases "scan_exts cfg env i (List.enumerate 0 (ext_list_to_scan cfg)) found False") auto
  from calm_loop[OF Cons.prems x] have x1: "x1 = None" .
  show ?case
    using x x1 Cons.IH[OF Cons.prems, of f1 0] Cons.IH[OF Cons.prems, of f1 "c + 1"]
    by (auto split: prod.splits)
qed





section \<open>The claims about the probes and the loop\<close>




text \<open>
  C4, as amended. For every identifier whose probes and delays complete: a hit among
  its extensions lets the loop go on with the counter of consecutive misses at 0; with
  no hit the counter grows by one, and the loop stops, with the reason
  "<max_mis> consecutive misses", exactly when the counter has then reached \<open>max_mis\<close>.
  In particular, with \<open>max_mis = 5\<close>, at least 5 identifiers to visit, one extension,
  probes that all miss and delays that all return, the loop emits, log frames apart,
  5 \<open>checking\<close> frames and then one \<open>stopped\<close> frame whose reason cites 5.
\<close>

theorem consecutive_miss_policy:
  "(scan_exts cfg env i (List.enumerate 0 (ext_list_to_scan cfg)) found False
        = (evs, found', hit_this, None)
      \<longrightarrow> scan_loop cfg env (i # ids) found consecutive =
           (if \<exists>e\<in>set evs. is_hit e
            then (case scan_loop cfg env ids found' 0 of (evs', r) \<Rightarrow> (evs @ evs', r))
            else if max_mis cfg \<le> consecutive + 1
                 then (evs @ [Stopped (py_str (max_mis cfg) @ '' consecutive misses'')],
                       found', None)
                 else (case scan_loop cfg env ids found' (consecutive + 1) of
                         (evs', r) \<Rightarrow> (evs @ evs', r))))
   \<and> (max_mis cfg = 5 \<and> 5 \<le> max_n cfg \<and> ext_list_to_scan cfg = [ext]
        \<and> (\<forall>i. \<not> probe_hits cfg env i 0 ext) \<and> (\<forall>i. sleep_exn env i 0 = None)
      \<longrightarrow> visible (fst (scan_loop cfg env [0..<nat (max_n cfg)] 0 0))
            = map (\<lambda>i. Checking (probe_url cfg i ext) 0 (int i) (max_n cfg)) [0..<5]
              @ [Stopped ''5 consecutive misses''])"
proof (intro conjI impI)
  assume x: "scan_exts cfg env i (List.enumerate 0 (ext_list_to_scan cfg)) found False
        = (evs, found', hit_this, None)"
  from scan_exts_counts[OF x] have "hit_this = (\<exists>e\<in>set evs. is_hit e)" by simp
  with x show "scan_loop cfg env (i # ids) found consecutive =
           (if \<exists>e\<in>set evs. is_hit e
            then (case scan_loop cfg env ids found' 0 of (evs', r) \<Rightarrow> (evs @ evs', r))
            else if max_mis cfg \<le> consecutive + 1
                 then (evs @ [Stopped (py_str (max_mis cfg) @ '' consecutive misses'')],
                       found', None)
                 else (case scan_loop cfg env ids found' (consecutive + 1) of
                         (evs', r) \<Rightarrow> (evs @ evs', r)))"
    by (simp add: stop_reason_def)
next
  assume a: "max_mis cfg = 5 \<and> 5 \<le> max_n cfg \<and> ext_list_to_scan cfg = [ext]
        \<and> (\<forall>i. \<not> probe_hits cfg env i 0 ext) \<and> (\<forall>i. sleep_exn env i 0 = None)"
  let ?ids = "[0..<nat (max_n cfg)]"
  have "visible (fst (scan_loop cfg env ?ids 0 0))
           = map (\<lambda>i. Checking (probe_url cfg i ext) 0 (int i) (max_n cfg))
                 (take (nat (max_mis cfg - 0)) ?ids)
             @ [Stopped (stop_reason cfg)]"
    using miss_run[of cfg ext ?ids env 0 0] a by (simp add: le_nat_iff)
  moreover have "take 5 ?ids = [0..<5]"
  proof -
    from a have "5 \<le> max_n cfg" by simp
    then have "0 + 5 \<le> nat (max_n cfg)" by linarith
    from take_upt[OF this] show ?thesis by simp
  qed
  moreover have "stop_reason cfg = ''5 consecutive misses''"
    using a by (simp add: stop_reason_def py_str_def digits_of.simps digit_char_def)
  ultimately show "visible (fst (scan_loop cfg env [0..<nat (max_n cfg)] 0 0))
            = map (\<lambda>i. Checking (probe_url cfg i ext) 0 (int i) (max_n cfg)) [0..<5]
              @ [Stopped ''5 consecutive misses'']"
    using a by simp
qed

theorem consecutive_miss_policy_witness:
  "scan_exts (demo_cfg \<lparr> max_n := 8 \<rparr>) calm_env 0
      (List.enumerate 0 (ext_list_to_scan (demo_cfg \<lparr> max_n := 8 \<rparr>))) 0 False
     = (fst (probe (demo_cfg \<lparr> max_n := 8 \<rparr>) calm_env 0 0 ''.mp4'' 0 False), 0, False, None)
   \<and> scan_loop (demo_cfg \<lparr> max_n := 8 \<rparr>) calm_env [0] 0 4
     = (fst (probe (demo_cfg \<lparr> max_n := 8 \<rparr>) calm_env 0 0 ''.mp4'' 0 False)
          @ [Stopped ''5 consecutive misses''], 0, None)
   \<and> max_mis (demo_cfg \<lparr> max_n := 8 \<rparr>) = 5 \<and> 5 \<le> max_n (demo_cfg \<lparr> max_n := 8 \<rparr>)
   \<and> ext_list_to_scan (demo_cfg \<lparr> max_n := 8 \<rparr>) = [''.mp4'']
   \<and> \<not> probe_hits (demo_cfg \<lparr> max_n := 8 \<rparr>) calm_env 0 0 ''.mp4''
   \<and> sleep_exn calm_env 0 0 = None
   \<and> visible (fst (scan_loop (demo_cfg \<lparr> max_n := 8 \<rparr>) calm_env
                      [0..<nat (max_n (demo_cfg \<lparr> max_n := 8 \<rparr>))] 0 0))
        = map (\<lambda>i. Checking (probe_url (demo_cfg \<lparr> max_n := 8 \<rparr>) i ''.mp4'') 0 (int i)
                      (max_n (demo_cfg \<lparr> max_n := 8 \<rparr>))) [0..<5]
          @ [Stopped ''5 consecutive misses'']"
proof -
  let ?cfg = "demo_cfg \<lparr> max_n := 8 \<rparr>"
  let ?E = "fst (probe ?cfg calm_env 0 0 ''.mp4'' 0 False)"
  have h1: "scan_exts ?cfg calm_env 0 (List.enumerate 0 (ext_list_to_scan ?cfg)) 0 False
     = (?E, 0, False, None)"
    by code_simp
  have nh: "\<not> (\<exists>e\<in>set ?E. is_hit e)" by code_simp
  have r: "py_str (max_mis ?cfg) @ '' consecutive misses'' = ''5 consecutive misses''"
    by code_simp
  have h2: "max_mis ?cfg = 5 \<and> 5 \<le> max_n ?cfg \<and> ext_list_to_scan ?cfg = [''.mp4'']
        \<and> (\<forall>i. \<not> probe_hits ?cfg calm_env i 0 ''.mp4'') \<and> (\<forall>i. sleep_exn calm_env i 0 = None)"
    using demo_misses by (simp add: demo_cfg_def calm_env_def ext_list_to_scan_def exts_def)
  note t = consecutive_miss_policy[of ?cfg calm_env 0 0 ?E 0 False "[]" 4 "''.mp4''"]
  from t h1 have "scan_loop ?cfg calm_env [0] 0 4 =
           (if \<exists>e\<in>set ?E. is_hit e
            then (case scan_loop ?cfg calm_env [] 0 0 of (evs', r) \<Rightarrow> (?E @ evs', r))
            else if max_mis ?cfg \<le> 4 + 1
                 then (?E @ [Stopped (py_str (max_mis ?cfg) @ '' consecutive misses'')], 0, None)
                 else (case scan_loop ?cfg calm_env [] 0 (4 + 1) of
                         (evs', r) \<Rightarrow> (?E @ evs', r)))"
    by blast
  with nh r h2 have c1: "scan_loop ?cfg calm_env [0] 0 4
       = (?E @ [Stopped ''5 consecutive misses''], 0, None)"
    by (simp only: if_False) simp
  from t h2 have c2: "visible (fst (scan_loop ?cfg calm_env [0..<nat (max_n ?cfg)] 0 0))
        = map (\<lambda>i. Checking (probe_url ?cfg i ''.mp4'') 0 (int i) (max_n ?cfg)) [0..<5]
          @ [Stopped ''5 consecutive misses'']"
    by blast
  from h1 c1 h2 c2 show ?thesis by simp
qed

text \<open>
  C4 as the specification words it fails: with \<open>max_mis = 5\<close>, one extension and
  probes that all miss, a range of 3 identifiers gives 3 \<open>checking\<close> frames and no
  \<open>stopped\<close> frame.
\<close>

theorem short_range_counterexample:
  "max_mis demo_cfg = 5 \<and> ext_list_to_scan demo_cfg = [''.mp4'']
   \<and> visible (events (generate demo_cfg calm_env))
      = [Range ''http://h/f001.mp4'' ''http://h/f003.mp4'',
         Checking ''http://h/f001.mp4'' 0 0 3,
         Checking ''http://h/f002.mp4'' 0 1 3,
         Checking ''http://h/f003.mp4'' 0 2 3,
         Done 0]"
  by code_simp




text \<open>
  C7, as amended. An exception that ends the probing of one candidate, in either mode,
  is caught by the handler inside the loop body: the probe counts as a miss (\<open>found\<close>
  and \<open>hit_this\<close> stay as they were and no \<open>hit\<close> frame is emitted), the probe
  returns, and when the delay after it returns the loop goes on with the next probe.
  No failure of a probe ends the scan: when no delay raises, the loop ends without an
  exception whatever the probes do. In click mode an exception at one selector is
  caught by the handler of that selector: the search goes on with the next selector,
  whose verdict decides.
\<close>

theorem probe_failure_is_a_miss:
  "(probe_body cfg env i k ext found hit_this = (evs, found', hit_this', Some e)
      \<longrightarrow> found' = found \<and> hit_this' = hit_this \<and> (\<forall>x\<in>set evs. is_log x)
          \<and> probe cfg env i k ext found hit_this
              = (Checking (probe_url cfg i ext) found (int i) (max_n cfg) # evs
                   @ debug i [Log (''   Request failure: '' @ e)],
                 found, hit_this)
          \<and> (sleep_exn env i k = None
               \<longrightarrow> scan_exts cfg env i ((k, ext) # rest) found hit_this
                   = (case scan_exts cfg env i rest found hit_this of
                        (evs', r) \<Rightarrow>
                          ((Checking (probe_url cfg i ext) found (int i) (max_n cfg) # evs
                              @ debug i [Log (''   Request failure: '' @ e)]) @ evs', r))))
   \<and> ((\<forall>i k. sleep_exn env i k = None)
      \<longrightarrow> snd (snd (scan_loop cfg env ids found0 consecutive)) = None)
   \<and> (selector env i j = SelQueryRaises e' \<or> selector env i j = SelClickRaises e'
      \<longrightarrow> snd (try_selectors cfg env i ((j, sel) # sels)) = snd (try_selectors cfg env i sels))"
proof (intro conjI impI)
  assume b: "probe_body cfg env i k ext found hit_this = (evs, found', hit_this', Some e)"
  from probe_body_inv[of cfg i ext found hit_this env k] b
  have m: "filter (\<lambda>e. \<not> is_log e) evs = []" "found' = found" "hit_this' = hit_this"
    by (auto simp: probe_inv_def)
  show "found' = found" "hit_this' = hit_this" by (rule m)+
  show "\<forall>x\<in>set evs. is_log x" using m(1) by (simp add: filter_empty_conv)
  show p: "probe cfg env i k ext found hit_this
              = (Checking (probe_url cfg i ext) found (int i) (max_n cfg) # evs
                   @ debug i [Log (''   Request failure: '' @ e)],
                 found, hit_this)"
    using b m by (simp add: probe_def)
  assume "sleep_exn env i k = None"
  with p show "scan_exts cfg env i ((k, ext) # rest) found hit_this
                   = (case scan_exts cfg env i rest found hit_this of
                        (evs', r) \<Rightarrow>
                          ((Checking (probe_url cfg i ext) found (int i) (max_n cfg) # evs
                              @ debug i [Log (''   Request failure: '' @ e)]) @ evs', r))"
    by simp
next
  assume "\<forall>i k. sleep_exn env i k = None"
  then show "snd (snd (scan_loop cfg env ids found0 consecutive)) = None"
    by (rule calm_scan)
next
  assume "selector env i j = SelQueryRaises e' \<or> selector env i j = SelClickRaises e'"
  then show "snd (try_selectors cfg env i ((j, sel) # sels)) = snd (try_selectors cfg env i sels)"
    by (auto split: prod.splits)
qed

theorem probe_failure_is_a_miss_witness:
  "probe_body demo_cfg timeout_env 0 0 ''.mp4'' 0 False
     = ([], 0, False, Some ''Timeout 12000ms exceeded'')
   \<and> sleep_exn timeout_env 0 0 = None
   \<and> probe demo_cfg timeout_env 0 0 ''.mp4'' 0 False
       = ([Checking ''http://h/f001.mp4'' 0 0 3,
           Log ''   Request failure: Timeout 12000ms exceeded''], 0, False)
   \<and> fst (scan_exts demo_cfg timeout_env 0 [(0, ''.mp4'')] 0 False)
       = [Checking ''http://h/f001.mp4'' 0 0 3,
          Log ''   Request failure: Timeout 12000ms exceeded'']
   \<and> snd (snd (scan_loop demo_cfg timeout_env [0, 1, 2] 0 0)) = None
   \<and> selector flaky_selector_env 0 0 = SelClickRaises ''Timeout 30000ms exceeded''
   \<and> snd (try_selectors click_cfg flaky_selector_env 0 [(0, ''button''), (1, ''a'')])"
proof -
  have h1: "probe_body demo_cfg timeout_env 0 0 ''.mp4'' 0 False
     = ([], 0, False, Some ''Timeout 12000ms exceeded'')"
    by code_simp
  have h2: "sleep_exn timeout_env 0 0 = None" "\<forall>i k. sleep_exn timeout_env i k = None"
    by (simp_all add: timeout_env_def calm_env_def)
  have u: "probe_url demo_cfg 0 ''.mp4'' = ''http://h/f001.mp4''" "max_n demo_cfg = 3"
    by code_simp+
  note t = probe_failure_is_a_miss[of demo_cfg timeout_env 0 0 "''.mp4''" 0 False "[]" 0 False
      "''Timeout 12000ms exceeded''" "[]" "[0, 1, 2]" 0 0]
  from t h1 h2 u have a: "probe demo_cfg timeout_env 0 0 ''.mp4'' 0 False
       = ([Checking ''http://h/f001.mp4'' 0 0 3,
           Log ''   Request failure: Timeout 12000ms exceeded''], 0, False)
     \<and> fst (scan_exts demo_cfg timeout_env 0 [(0, ''.mp4'')] 0 False)
       = [Checking ''http://h/f001.mp4'' 0 0 3,
          Log ''   Request failure: Timeout 12000ms exceeded'']
     \<and> snd (snd (scan_loop demo_cfg timeout_env [0, 1, 2] 0 0)) = None"
    by (simp add: debug_def del: scan_loop.simps)
  have h3: "selector flaky_selector_env 0 0 = SelClickRaises ''Timeout 30000ms exceeded''"
    by (simp add: flaky_selector_env_def)
  have r: "snd (try_selectors click_cfg flaky_selector_env 0 [(1, ''a'')])"
    by code_simp
  from probe_failure_is_a_miss[where env = flaky_selector_env and i = 0 and j = 0
      and e' = "''Timeout 30000ms exceeded''" and cfg = click_cfg and sel = "''button''"
      and sels = "[(1, ''a'')]"] h3 r
  have b: "snd (try_selectors click_cfg flaky_selector_env 0 [(0, ''button''), (1, ''a'')])"
    by (simp del: try_selectors.simps)
  from h1 h2(1) a h3 b show ?thesis by simp
qed

text \<open>
  C7 as the specification words it fails: in click mode the click on the first
  selector raises while candidate 0 is probed, the exception is caught, and the probe
  is a hit all the same.
\<close>

theorem caught_exception_then_hit_counterexample:
  "click_mode click_cfg
   \<and> selector flaky_selector_env 0 0 = SelClickRaises ''Timeout 30000ms exceeded''
   \<and> outcome (fst (probe click_cfg flaky_selector_env 0 0 [] 0 False)) = [Hit ''f001'' 1]
   \<and> snd (probe click_cfg flaky_selector_env 0 0 [] 0 False) = (1, True)"
  by code_simp

section \<open>The claims about identities and the missing browser\<close>

text \<open>
  C8, as amended. In Direct Fetch mode every probe is issued through the one browser
  context of the scan and presents its user agent, the first entry of the pool; the
  cycle over the pool is never advanced, so successive probes present the same
  identity.
\<close>

theorem probes_share_one_identity:
  "req_user_agent (probe_request cfg i ext) = USER_AGENTS ! 0
   \<and> req_url (probe_request cfg i ext) = probe_url cfg i ext"
  by (simp add: probe_request_def api_request_def new_context_def USER_AGENTS_def)

text \<open>
  C8 as the specification words it fails: the first and the second probe present the
  identity that the cycle yields first, and the cycle would have yielded another one
  for the second.
\<close>

theorem no_rotation_counterexample:
  "req_user_agent (probe_request demo_cfg 0 ''.mp4'') = agent_cycle 0
   \<and> req_user_agent (probe_request demo_cfg 1 ''.mp4'') = agent_cycle 0
   \<and> agent_cycle 1 \<noteq> agent_cycle 0"
  by code_simp

text \<open>
  C6, at its failing inputs. When the engine cannot be imported the stream holds the
  warning and nothing else; when the browser binary is missing and its install fails
  the stream holds the install messages and the warning and nothing else. No range is
  probed and no terminal frame is emitted.
\<close>

theorem no_fallback_scan:
  "events (generate demo_cfg no_engine_env)
     = [Log ''Playwright not installed - scanning without gate bypass.'']
   \<and> events (generate demo_cfg no_browser_env)
     = [Log ''Chromium missing at browsers. Attempting install...'',
        Log ''Browser auto-install failed: install failed'',
        Log ''Browser error: install failed - continuing anyway.'']"
  by code_simp

end
